theory Spec2Isabelle
  imports Main "HOL-Library.AList"
begin

section \<open>mcr-sync: route reconciliation between Docker, config.yml and mc-router\<close>

text \<open>
  A shallow embedding of \<^verbatim>\<open>src/index.ts\<close>. The reconciliation cycle \<^verbatim>\<open>syncRoutes\<close>
  reads three things from the outside world (the parsed configuration file, the list of
  running containers, the router's current routes) and issues HTTP calls to the router.
  In the model the three reads are arguments (each one may have failed) and the calls
  are returned as a list, in the order in which the code issues them.

  Strings are \<^typ>\<open>string\<close>; the characters stand for ASCII code units.
\<close>

subsection \<open>JavaScript values used by the code\<close>

text \<open>
  A JavaScript \<^verbatim>\<open>Map\<close> keeps its entries in the order of first insertion;
  \<^verbatim>\<open>set\<close> on a key that is present replaces the value where the entry stands, and
  appends a new entry otherwise. It is modelled as an association list.
\<close>

type_synonym ('k, 'v) js_map = "('k \<times> 'v) list"

fun map_set :: "'k \<Rightarrow> 'v \<Rightarrow> ('k, 'v) js_map \<Rightarrow> ('k, 'v) js_map" where
  "map_set k v [] = [(k, v)]"
| "map_set k v ((k', v') # m) = (if k' = k then (k, v) # m else (k', v') # map_set k v m)"

definition map_get :: "'k \<Rightarrow> ('k, 'v) js_map \<Rightarrow> 'v option" where
  "map_get k m = map_of m k"

definition map_has :: "'k \<Rightarrow> ('k, 'v) js_map \<Rightarrow> bool" where
  "map_has k m = (map_of m k \<noteq> None)"

text \<open>\<^verbatim>\<open>new Map(entries)\<close> inserts the entries from left to right.\<close>

definition new_Map :: "('k \<times> 'v) list \<Rightarrow> ('k, 'v) js_map" where
  "new_Map entries = fold (\<lambda>(k, v). map_set k v) entries []"

text \<open>\<^verbatim>\<open>s.split(sep)\<close> for a separator of one character: never returns the empty list.\<close>

fun split_on :: "char \<Rightarrow> string \<Rightarrow> string list" where
  "split_on sep [] = [[]]"
| "split_on sep (c # cs) =
     (if c = sep then [] # split_on sep cs
      else (case split_on sep cs of [] \<Rightarrow> [[c]] | w # ws \<Rightarrow> (c # w) # ws))"

text \<open>\<^verbatim>\<open>s.trim()\<close>, on the ASCII white space characters (tab, LF, VT, FF, CR, space).\<close>

definition is_space :: "char \<Rightarrow> bool" where
  "is_space c = (c \<in> set [CHR 0x09, CHR 0x0A, CHR 0x0B, CHR 0x0C, CHR 0x0D, CHR 0x20])"

definition trim :: "string \<Rightarrow> string" where
  "trim s = rev (dropWhile is_space (rev (dropWhile is_space s)))"

text \<open>
  A number inside a template literal: decimal digits, with a minus sign when negative.
  (This is what JavaScript prints for every integer of magnitude below \<open>10\<^sup>2\<^sup>1\<close>.)
\<close>

fun nat_to_string :: "nat \<Rightarrow> string" where
  "nat_to_string n =
     (if n < 10 then [''0123456789'' ! n]
      else nat_to_string (n div 10) @ [''0123456789'' ! (n mod 10)])"

declare nat_to_string.simps [simp del]

definition num_to_string :: "int \<Rightarrow> string" where
  "num_to_string i = (if i < 0 then ''-'' @ nat_to_string (nat (- i)) else nat_to_string (nat i))"

subsection \<open>Type definitions of the source\<close>

record ManualServerConfig =
  host :: string
  port :: int
  override_suffix :: "string list option"

text \<open>
  \<^verbatim>\<open>manual\<close> is a JavaScript object; the model holds what \<^verbatim>\<open>Object.entries\<close> returns
  for it, in that order.
\<close>

record Config =
  default_domain_suffix :: "string list"
  manual :: "(string \<times> ManualServerConfig) list"

text \<open>The parsed JSON object of \<^verbatim>\<open>GET /routes\<close>, as \<^verbatim>\<open>Object.entries\<close> lists it.\<close>

type_synonym McRouterRoutes = "(string \<times> string) list"

text \<open>What the code reads of a container: its labels and the public port of its ports.\<close>

record Port =
  PublicPort :: "int option"

record ContainerInfo =
  Labels :: "string \<Rightarrow> string option"
  Ports :: "Port list option"

datatype docker_failure = Docker_failure string

text \<open>The calls to the router, \<^verbatim>\<open>POST /routes\<close> and \<^verbatim>\<open>DELETE /routes/<name>\<close>.\<close>

datatype call = AddOrUpdateRoute string string | DeleteRoute string

text \<open>How a cycle ends, as its last log line says.\<close>

datatype status = Skipped_config | Skipped_fetch | No_changes | Changes_applied

subsection \<open>\<^verbatim>\<open>getDockerRoutes\<close>\<close>

text \<open>
  The body of the loop over the containers. A label that is absent or empty is falsy,
  and so is a public port that is absent or zero. The warning that is logged for a
  container with slugs and no port is not part of the model.
\<close>

definition scan_container :: "string \<Rightarrow> ContainerInfo \<Rightarrow> (string, string) js_map \<Rightarrow> (string, string) js_map" where
  "scan_container docker_host_ip containerInfo routes =
     (case Labels containerInfo ''router.slug'' of
        None \<Rightarrow> routes
      | Some slugsLabel \<Rightarrow>
          if slugsLabel = [] then routes
          else
            let slugs = filter (\<lambda>s. s \<noteq> []) (map trim (split_on CHR '','' slugsLabel));
                portData = (case Ports containerInfo of
                              None \<Rightarrow> None
                            | Some [] \<Rightarrow> None
                            | Some (p # _) \<Rightarrow> Some p)
            in (case portData of
                  None \<Rightarrow> routes
                | Some p \<Rightarrow>
                    (case PublicPort p of
                       None \<Rightarrow> routes
                     | Some n \<Rightarrow>
                         if n = 0 then routes
                         else
                           let backend = docker_host_ip @ '':'' @ num_to_string n
                           in fold (\<lambda>slug. map_set slug backend) slugs routes)))"

text \<open>A failure of \<^verbatim>\<open>docker.listContainers()\<close> is caught; the map is then empty.\<close>

definition getDockerRoutes ::
  "string \<Rightarrow> docker_failure + ContainerInfo list \<Rightarrow> (string, string) js_map" where
  "getDockerRoutes docker_host_ip listed =
     (case listed of
        Inl _ \<Rightarrow> []
      | Inr containers \<Rightarrow> fold (scan_container docker_host_ip) containers [])"

subsection \<open>\<^verbatim>\<open>syncRoutes\<close>: the desired routes\<close>

text \<open>Step 1, one entry of the Docker map: a route for every default suffix.\<close>

definition docker_entry_routes ::
  "Config \<Rightarrow> string \<times> string \<Rightarrow> (string, string) js_map \<Rightarrow> (string, string) js_map" where
  "docker_entry_routes config = (\<lambda>(slug, backend) desiredRoutes.
     fold (\<lambda>suffix. map_set (slug @ ''.'' @ suffix) backend)
       (default_domain_suffix config) desiredRoutes)"

text \<open>
  \<^verbatim>\<open>manualConfig.override_suffix || config.default_domain_suffix\<close>: an array is truthy,
  also the empty one; only an absent field falls through to the default.
\<close>

definition suffixes_of :: "Config \<Rightarrow> ManualServerConfig \<Rightarrow> string list" where
  "suffixes_of config manualConfig =
     (case override_suffix manualConfig of
        Some suffixes \<Rightarrow> suffixes
      | None \<Rightarrow> default_domain_suffix config)"

definition fullAddress :: "string \<Rightarrow> string \<Rightarrow> string" where
  "fullAddress slug suffix = (if CHR ''.'' \<in> set suffix then slug else slug @ ''.'' @ suffix)"

definition manual_backend :: "ManualServerConfig \<Rightarrow> string" where
  "manual_backend manualConfig = host manualConfig @ '':'' @ num_to_string (port manualConfig)"

text \<open>Step 2, one manual entry.\<close>

definition manual_entry_routes ::
  "Config \<Rightarrow> string \<times> ManualServerConfig \<Rightarrow> (string, string) js_map \<Rightarrow> (string, string) js_map" where
  "manual_entry_routes config = (\<lambda>(slug, manualConfig) desiredRoutes.
     let backend = manual_backend manualConfig;
         suffixes = suffixes_of config manualConfig
     in fold (\<lambda>suffix. map_set (fullAddress slug suffix) backend) suffixes desiredRoutes)"

text \<open>The map after step 1, and after both steps.\<close>

definition docker_desired :: "Config \<Rightarrow> (string, string) js_map \<Rightarrow> (string, string) js_map" where
  "docker_desired config dockerRoutes = fold (docker_entry_routes config) dockerRoutes []"

definition build_desired :: "Config \<Rightarrow> (string, string) js_map \<Rightarrow> (string, string) js_map" where
  "build_desired config dockerRoutes =
     fold (manual_entry_routes config) (manual config) (docker_desired config dockerRoutes)"

subsection \<open>\<^verbatim>\<open>syncRoutes\<close>: comparing and applying\<close>

text \<open>
  The two loops of step 3 carry the calls issued so far and the flag \<^verbatim>\<open>changesMade\<close>.
  A call that fails is logged inside \<^verbatim>\<open>addOrUpdateRoute\<close> or \<^verbatim>\<open>deleteRoute\<close>; the
  loop goes on either way.
\<close>

definition add_or_update_step ::
  "(string, string) js_map \<Rightarrow> string \<times> string \<Rightarrow> call list \<times> bool \<Rightarrow> call list \<times> bool" where
  "add_or_update_step currentMappings = (\<lambda>(address, backend) (calls, changesMade).
     if map_get address currentMappings \<noteq> Some backend
     then (calls @ [AddOrUpdateRoute address backend], True)
     else (calls, changesMade))"

definition delete_step ::
  "(string, string) js_map \<Rightarrow> string \<times> string \<Rightarrow> call list \<times> bool \<Rightarrow> call list \<times> bool" where
  "delete_step desiredRoutes = (\<lambda>(address, _) (calls, changesMade).
     if \<not> map_has address desiredRoutes
     then (calls @ [DeleteRoute address], True)
     else (calls, changesMade))"

definition apply_changes ::
  "(string, string) js_map \<Rightarrow> (string, string) js_map \<Rightarrow> call list \<times> bool" where
  "apply_changes desiredRoutes currentMappings =
     fold (delete_step desiredRoutes) currentMappings
       (fold (add_or_update_step currentMappings) desiredRoutes ([], False))"

definition sync_calls :: "(string, string) js_map \<Rightarrow> (string, string) js_map \<Rightarrow> call list" where
  "sync_calls desiredRoutes currentMappings = fst (apply_changes desiredRoutes currentMappings)"

text \<open>
  One cycle. The arguments are the value of \<^verbatim>\<open>DOCKER_HOST_IP\<close> and the results of
  \<^verbatim>\<open>loadConfig()\<close>, \<^verbatim>\<open>docker.listContainers()\<close> and \<^verbatim>\<open>getMcRouterRoutes()\<close>
  (\<open>None\<close> for the \<^verbatim>\<open>null\<close> each of the two returns on failure). The variable
  \<^verbatim>\<open>lastKnownConfig\<close> is written and never read, and the log lines other than the last
  one have no effect on the calls; neither is part of the model.
\<close>

definition syncRoutes ::
  "string \<Rightarrow> Config option \<Rightarrow> docker_failure + ContainerInfo list \<Rightarrow> McRouterRoutes option
     \<Rightarrow> status \<times> call list" where
  "syncRoutes docker_host_ip loaded listed fetched =
     (case loaded of
        None \<Rightarrow> (Skipped_config, [])
      | Some config \<Rightarrow>
          let dockerRoutes = getDockerRoutes docker_host_ip listed;
              desiredRoutes = build_desired config dockerRoutes
          in (case fetched of
                None \<Rightarrow> (Skipped_fetch, [])
              | Some currentRoutes \<Rightarrow>
                  let currentMappings = new_Map currentRoutes;
                      (calls, changesMade) = apply_changes desiredRoutes currentMappings
                  in (if \<not> changesMade then No_changes else Changes_applied, calls)))"

subsection \<open>The router\<close>

text \<open>
  Modelled from the spec: the router is an external service, and the specification gives
  its interface: \<^verbatim>\<open>POST /routes\<close> adds or updates the route of a name,
  \<^verbatim>\<open>DELETE /routes/<name>\<close> removes it. This is the effect of a call that succeeds on
  the router's table.
\<close>

fun router_apply :: "call \<Rightarrow> (string \<rightharpoonup> string) \<Rightarrow> (string \<rightharpoonup> string)" where
  "router_apply (AddOrUpdateRoute address backend) table = table(address \<mapsto> backend)"
| "router_apply (DeleteRoute address) table = table(address := None)"

subsection \<open>Views of the loops used in the proofs\<close>

text \<open>
  The calls of the two loops of step 3, written as a filter over the map each loop
  runs through.
\<close>

definition adds_of :: "(string, string) js_map \<Rightarrow> (string, string) js_map \<Rightarrow> call list" where
  "adds_of D cur = map (\<lambda>(a, b). AddOrUpdateRoute a b) (filter (\<lambda>(a, b). map_of cur a \<noteq> Some b) D)"

definition deletes_of :: "(string, string) js_map \<Rightarrow> (string, string) js_map \<Rightarrow> call list" where
  "deletes_of D cur = map (\<lambda>(a, b). DeleteRoute a) (filter (\<lambda>(a, b). map_of D a = None) cur)"

text \<open>A sequence of \<^verbatim>\<open>set\<close> calls on a map.\<close>

definition set_all :: "('k \<times> 'v) list \<Rightarrow> ('k, 'v) js_map \<Rightarrow> ('k, 'v) js_map" where
  "set_all ops m = fold (\<lambda>(k, v). map_set k v) ops m"

text \<open>The \<^verbatim>\<open>set\<close> calls of the two steps, in the order in which they are made.\<close>

definition docker_sets :: "Config \<Rightarrow> (string, string) js_map \<Rightarrow> (string \<times> string) list" where
  "docker_sets config dockerRoutes =
     concat (map (\<lambda>(slug, backend).
       map (\<lambda>suffix. (slug @ ''.'' @ suffix, backend)) (default_domain_suffix config)) dockerRoutes)"

definition entry_sets :: "Config \<Rightarrow> string \<times> ManualServerConfig \<Rightarrow> (string \<times> string) list" where
  "entry_sets config = (\<lambda>(slug, manualConfig).
     map (\<lambda>suffix. (fullAddress slug suffix, manual_backend manualConfig))
       (suffixes_of config manualConfig))"

definition manual_sets :: "Config \<Rightarrow> (string \<times> string) list" where
  "manual_sets config = concat (map (entry_sets config) (manual config))"

text \<open>
  The two things \<^verbatim>\<open>getDockerRoutes\<close> reads of a container: the slugs of its label
  (line 126) and the backend built from its first port entry, \<^verbatim>\<open>Ports?.[0]\<close>, when
  that entry has a public port other than zero (lines 127 to 130); later port entries
  are not looked at. A record carries a slug when the slug is among its slugs and it
  has such a backend.
\<close>

definition container_slugs :: "ContainerInfo \<Rightarrow> string list" where
  "container_slugs containerInfo =
     (case Labels containerInfo ''router.slug'' of
        None \<Rightarrow> []
      | Some slugsLabel \<Rightarrow> filter (\<lambda>s. s \<noteq> []) (map trim (split_on CHR '','' slugsLabel)))"

definition container_backend :: "string \<Rightarrow> ContainerInfo \<Rightarrow> string option" where
  "container_backend docker_host_ip containerInfo =
     (case Ports containerInfo of
        None \<Rightarrow> None
      | Some [] \<Rightarrow> None
      | Some (p # _) \<Rightarrow>
          (case PublicPort p of
             None \<Rightarrow> None
           | Some n \<Rightarrow> if n = 0 then None else Some (docker_host_ip @ '':'' @ num_to_string n)))"

definition carries :: "string \<Rightarrow> string \<Rightarrow> ContainerInfo \<Rightarrow> bool" where
  "carries docker_host_ip slug containerInfo =
     (slug \<in> set (container_slugs containerInfo)
      \<and> container_backend docker_host_ip containerInfo \<noteq> None)"

subsection \<open>Example inputs\<close>

text \<open>
  A configuration with one manual entry, one container with two slugs, and a router
  that holds two routes nobody wants any more and one route with an outdated backend.
\<close>

definition example_config :: Config where
  "example_config =
     \<lparr>default_domain_suffix = [''mc.test''],
      manual = [(''foo'', \<lparr>host = ''10.0.0.5'', port = 9000, override_suffix = None\<rparr>)]\<rparr>"

definition example_containers :: "ContainerInfo list" where
  "example_containers =
     [\<lparr>Labels = [''router.slug'' \<mapsto> ''a, b''], Ports = Some [\<lparr>PublicPort = Some 25565\<rparr>]\<rparr>]"

definition example_routes :: McRouterRoutes where
  "example_routes =
     [(''old.example.com'', ''1.2.3.4:1000''), (''a.mc.test'', ''1.2.3.4:1000''),
      (''older.example.com'', ''1.2.3.4:1000'')]"

text \<open>
  Three containers, two of them with the same slug, and two default suffixes of which
  one ends with the other.
\<close>

definition ex_slug_containers :: "ContainerInfo list" where
  "ex_slug_containers =
     [\<lparr>Labels = [''router.slug'' \<mapsto> ''foo.mc''], Ports = Some [\<lparr>PublicPort = Some 25565\<rparr>]\<rparr>,
      \<lparr>Labels = [''router.slug'' \<mapsto> ''foo.mc''], Ports = Some [\<lparr>PublicPort = Some 25566\<rparr>]\<rparr>,
      \<lparr>Labels = [''router.slug'' \<mapsto> ''foo''], Ports = Some [\<lparr>PublicPort = Some 25567\<rparr>]\<rparr>]"

definition ex_slug_config :: Config where
  "ex_slug_config = \<lparr>default_domain_suffix = [''example.com'', ''mc.example.com''], manual = []\<rparr>"

text \<open>
  Two manual entries that produce the same name, \<^verbatim>\<open>foo.lan\<close>, which the container's
  slug produces as well.
\<close>

definition shadow_config :: Config where
  "shadow_config =
     \<lparr>default_domain_suffix = [''lan''],
      manual = [(''foo.lan'', \<lparr>host = ''m'', port = 10, override_suffix = Some [''x.y'']\<rparr>),
                (''foo'', \<lparr>host = ''m'', port = 11, override_suffix = None\<rparr>)]\<rparr>"

definition shadow_containers :: "ContainerInfo list" where
  "shadow_containers =
     [\<lparr>Labels = [''router.slug'' \<mapsto> ''foo''], Ports = Some [\<lparr>PublicPort = Some 25565\<rparr>]\<rparr>]"

section \<open>Auxiliary facts\<close>

subsection \<open>Maps\<close>

lemma map_set_update: "map_set k v m = AList.update k v m"
  by (induction m) auto

lemma map_of_map_set: "map_of (map_set k v m) = (map_of m)(k \<mapsto> v)"
  by (simp add: map_set_update update_conv')

lemma keys_map_set: "fst ` set (map_set k v m) = insert k (fst ` set m)"
  by (simp add: map_set_update dom_update)

lemma distinct_map_set: "distinct (map fst m) \<Longrightarrow> distinct (map fst (map_set k v m))"
  by (simp add: map_set_update distinct_update)

lemma set_all_Nil: "set_all [] m = m"
  by (simp add: set_all_def)

lemma set_all_Cons: "set_all ((k, v) # ops) m = set_all ops (map_set k v m)"
  by (simp add: set_all_def)

lemma set_all_append: "set_all (ops @ ops') m = set_all ops' (set_all ops m)"
  by (simp add: set_all_def)

lemma map_of_set_all_at:
  "map_of (set_all ops m) x =
     (case map_of (rev ops) x of Some v \<Rightarrow> Some v | None \<Rightarrow> map_of m x)"
proof (induction ops arbitrary: m)
  case Nil
  then show ?case by (simp add: set_all_Nil)
next
  case (Cons p ops)
  obtain k v where p: "p = (k, v)" by (cases p)
  show ?case
    by (simp add: p set_all_Cons Cons.IH map_of_map_set map_add_def split: option.split)
qed

lemma map_of_set_all: "map_of (set_all ops m) = map_of m ++ map_of (rev ops)"
  by (simp add: fun_eq_iff map_of_set_all_at map_add_def)

lemma keys_set_all: "fst ` set (set_all ops m) = fst ` set m \<union> fst ` set ops"
proof (induction ops arbitrary: m)
  case Nil
  then show ?case by (simp add: set_all_Nil)
next
  case (Cons p ops)
  obtain k v where p: "p = (k, v)" by (cases p)
  show ?case by (auto simp: p set_all_Cons Cons.IH keys_map_set)
qed

lemma distinct_set_all: "distinct (map fst m) \<Longrightarrow> distinct (map fst (set_all ops m))"
proof (induction ops arbitrary: m)
  case Nil
  then show ?case by (simp add: set_all_Nil)
next
  case (Cons p ops)
  obtain k v where p: "p = (k, v)" by (cases p)
  show ?case using Cons.prems by (simp add: p set_all_Cons Cons.IH distinct_map_set)
qed

lemma map_of_rev_in_keys:
  "x \<in> fst ` set ops \<Longrightarrow> \<exists>v. map_of (rev ops) x = Some v \<and> (x, v) \<in> set ops"
proof -
  assume "x \<in> fst ` set ops"
  then have "x \<in> fst ` set (rev ops)" by simp
  then obtain v where "map_of (rev ops) x = Some v"
    by (cases "map_of (rev ops) x") (auto simp: map_of_eq_None_iff simp del: set_rev)
  moreover from this have "(x, v) \<in> set ops"
    by (auto dest: map_of_SomeD)
  ultimately show ?thesis by blast
qed

lemma map_of_rev_notin_keys: "x \<notin> fst ` set ops \<Longrightarrow> map_of (rev ops) x = None"
  by (simp add: map_of_eq_None_iff)

lemma set_all_lookup_new:
  assumes "x \<in> fst ` set ops" and "\<forall>(k, v) \<in> set ops. k = x \<longrightarrow> v = b"
  shows "map_of (set_all ops m) x = Some b"
proof -
  from map_of_rev_in_keys [OF assms(1)] obtain v
    where v: "map_of (rev ops) x = Some v" "(x, v) \<in> set ops" by blast
  with assms(2) have "v = b" by auto
  with v show ?thesis by (simp add: map_of_set_all_at)
qed

lemma set_all_lookup_old: "x \<notin> fst ` set ops \<Longrightarrow> map_of (set_all ops m) x = map_of m x"
  by (simp add: map_of_set_all_at map_of_rev_notin_keys)

lemma set_all_map: "fold (\<lambda>x. map_set (f x) (g x)) xs m = set_all (map (\<lambda>x. (f x, g x)) xs) m"
  by (induction xs arbitrary: m) (simp_all add: set_all_def)

lemma manual_entry_routes_sets:
  "manual_entry_routes config e d = set_all (entry_sets config e) d"
  by (cases e) (simp add: manual_entry_routes_def entry_sets_def Let_def set_all_map)

lemma fold_manual_entry_routes:
  "fold (manual_entry_routes config) es d = set_all (concat (map (entry_sets config) es)) d"
  by (induction es arbitrary: d) (simp_all add: set_all_Nil set_all_append manual_entry_routes_sets)

lemma docker_entry_routes_sets:
  "docker_entry_routes config e d = set_all (docker_sets config [e]) d"
  by (cases e) (simp add: docker_entry_routes_def docker_sets_def set_all_map)

lemma docker_sets_Cons: "docker_sets config (e # es) = docker_sets config [e] @ docker_sets config es"
  by (simp add: docker_sets_def)

lemma docker_sets_append: "docker_sets config (es @ es') = docker_sets config es @ docker_sets config es'"
  by (simp add: docker_sets_def)

lemma fold_docker_entry_routes:
  "fold (docker_entry_routes config) es d = set_all (docker_sets config es) d"
proof (induction es arbitrary: d)
  case Nil
  then show ?case by (simp add: docker_sets_def set_all_Nil)
next
  case (Cons e es)
  have "fold (docker_entry_routes config) (e # es) d =
        set_all (docker_sets config es) (set_all (docker_sets config [e]) d)"
    by (simp add: Cons.IH docker_entry_routes_sets)
  then show ?case
    by (simp add: docker_sets_Cons [of config e es] set_all_append)
qed

lemma docker_desired_sets: "docker_desired config dr = set_all (docker_sets config dr) []"
  by (simp add: docker_desired_def fold_docker_entry_routes)

lemma build_desired_sets:
  "build_desired config dr = set_all (manual_sets config) (docker_desired config dr)"
  by (simp add: build_desired_def fold_manual_entry_routes manual_sets_def)

lemma distinct_docker_desired: "distinct (map fst (docker_desired config dr))"
  by (simp add: docker_desired_sets distinct_set_all)

lemma distinct_build_desired: "distinct (map fst (build_desired config dr))"
  by (simp add: build_desired_sets distinct_set_all distinct_docker_desired)

lemma syncRoutes_calls:
  "snd (syncRoutes ip loaded listed fetched) =
     (case loaded of
        None \<Rightarrow> []
      | Some config \<Rightarrow>
          (case fetched of
             None \<Rightarrow> []
           | Some cur \<Rightarrow> sync_calls (build_desired config (getDockerRoutes ip listed)) (new_Map cur)))"
  by (simp add: syncRoutes_def sync_calls_def Let_def split: option.split prod.split)

lemma new_Map_sets: "new_Map entries = set_all entries []"
  by (simp add: new_Map_def set_all_def)

lemma distinct_new_Map: "distinct (map fst (new_Map entries))"
  by (simp add: new_Map_sets distinct_set_all)

subsection \<open>The desired routes\<close>

lemma keys_entry_sets:
  "fst ` set (entry_sets config (slug, mc)) = fullAddress slug ` set (suffixes_of config mc)"
  by (auto simp: entry_sets_def intro: rev_image_eqI)

lemma values_entry_sets: "(k, v) \<in> set (entry_sets config (slug, mc)) \<Longrightarrow> v = manual_backend mc"
  by (auto simp: entry_sets_def)

lemma manual_sets_split:
  "manual config = pre @ (slug, mc) # post \<Longrightarrow>
   manual_sets config =
     concat (map (entry_sets config) pre) @ entry_sets config (slug, mc)
       @ concat (map (entry_sets config) post)"
  by (simp add: manual_sets_def)

lemma in_manual_sets:
  "(n, b) \<in> set (concat (map (entry_sets config) es)) \<Longrightarrow>
   \<exists>slug mc suffix. (slug, mc) \<in> set es \<and> suffix \<in> set (suffixes_of config mc)
      \<and> n = fullAddress slug suffix \<and> b = manual_backend mc"
  by (auto simp: entry_sets_def)

lemma manual_sets_in:
  "(slug, mc) \<in> set es \<Longrightarrow> suffix \<in> set (suffixes_of config mc) \<Longrightarrow>
   (fullAddress slug suffix, manual_backend mc) \<in> set (concat (map (entry_sets config) es))"
  by (force simp: entry_sets_def)

lemma last_manual_entry_wins:
  assumes split: "manual config = pre @ (slug, mc) # post"
    and suffix: "suffix \<in> set (suffixes_of config mc)"
    and later: "\<forall>(slug', mc') \<in> set post. \<forall>suffix' \<in> set (suffixes_of config mc').
        fullAddress slug' suffix' \<noteq> fullAddress slug suffix"
  shows "map_of (build_desired config dr) (fullAddress slug suffix) = Some (manual_backend mc)"
proof -
  let ?A = "concat (map (entry_sets config) pre)"
  let ?E = "entry_sets config (slug, mc)"
  let ?B = "concat (map (entry_sets config) post)"
  let ?n = "fullAddress slug suffix"
  have notB: "?n \<notin> fst ` set ?B"
  proof
    assume "?n \<in> fst ` set ?B"
    then obtain b where "(?n, b) \<in> set ?B" by force
    from in_manual_sets [OF this] later show False by fastforce
  qed
  have inE: "?n \<in> fst ` set ?E"
    using suffix by (simp add: keys_entry_sets)
  have "build_desired config dr =
      set_all ?B (set_all ?E (set_all ?A (docker_desired config dr)))"
    by (simp add: build_desired_sets manual_sets_split [OF split] set_all_append)
  then have "map_of (build_desired config dr) ?n =
      map_of (set_all ?E (set_all ?A (docker_desired config dr))) ?n"
    by (simp add: set_all_lookup_old [OF notB])
  also have "\<dots> = Some (manual_backend mc)"
    using inE by (rule set_all_lookup_new) (auto dest: values_entry_sets)
  finally show ?thesis .
qed

lemma some_manual_entry_wins:
  assumes "(slug, mc) \<in> set (manual config)" and "suffix \<in> set (suffixes_of config mc)"
  shows "\<exists>slug' mc' suffix'. (slug', mc') \<in> set (manual config)
      \<and> suffix' \<in> set (suffixes_of config mc')
      \<and> fullAddress slug' suffix' = fullAddress slug suffix
      \<and> map_of (build_desired config dr) (fullAddress slug suffix) = Some (manual_backend mc')"
proof -
  let ?n = "fullAddress slug suffix"
  from assms have "(?n, manual_backend mc) \<in> set (manual_sets config)"
    unfolding manual_sets_def by (rule manual_sets_in)
  then have "?n \<in> fst ` set (manual_sets config)" by force
  from map_of_rev_in_keys [OF this] obtain v
    where v: "map_of (rev (manual_sets config)) ?n = Some v" "(?n, v) \<in> set (manual_sets config)"
    by blast
  from in_manual_sets [OF v(2) [unfolded manual_sets_def]] obtain slug' mc' suffix' where
    "(slug', mc') \<in> set (manual config)" "suffix' \<in> set (suffixes_of config mc')"
    "?n = fullAddress slug' suffix'" "v = manual_backend mc'"
    by blast
  moreover have "map_of (build_desired config dr) ?n = Some v"
    by (simp add: build_desired_sets map_of_set_all_at v(1))
  ultimately show ?thesis by metis
qed

lemma keys_manual_sets:
  "fst ` set (manual_sets config) =
     {fullAddress slug suffix | slug mc suffix.
        (slug, mc) \<in> set (manual config) \<and> suffix \<in> set (suffixes_of config mc)}"
proof (intro set_eqI iffI)
  fix n
  assume "n \<in> fst ` set (manual_sets config)"
  then obtain b where "(n, b) \<in> set (concat (map (entry_sets config) (manual config)))"
    unfolding manual_sets_def by force
  from in_manual_sets [OF this]
  show "n \<in> {fullAddress slug suffix | slug mc suffix.
        (slug, mc) \<in> set (manual config) \<and> suffix \<in> set (suffixes_of config mc)}"
    by blast
next
  fix n
  assume "n \<in> {fullAddress slug suffix | slug mc suffix.
        (slug, mc) \<in> set (manual config) \<and> suffix \<in> set (suffixes_of config mc)}"
  then obtain slug mc suffix where e: "(slug, mc) \<in> set (manual config)"
      "suffix \<in> set (suffixes_of config mc)" "n = fullAddress slug suffix"
    by blast
  from manual_sets_in [OF e(1) e(2)] have "(n, manual_backend mc) \<in> set (manual_sets config)"
    by (simp add: manual_sets_def e(3))
  then show "n \<in> fst ` set (manual_sets config)" by force
qed

lemma keys_docker_sets_one:
  "fst ` set (docker_sets config [(slug, backend)]) =
     (\<lambda>suffix. slug @ ''.'' @ suffix) ` set (default_domain_suffix config)"
  by (auto simp: docker_sets_def intro: rev_image_eqI)

lemma in_docker_sets:
  "(n, b) \<in> set (docker_sets config es) \<Longrightarrow>
   \<exists>slug suffix. (slug, b) \<in> set es \<and> suffix \<in> set (default_domain_suffix config)
      \<and> n = slug @ ''.'' @ suffix"
  by (auto simp: docker_sets_def)

lemma last_slug_wins:
  assumes split: "dockerRoutes = pre @ (slug, backend) # post"
    and suffix: "suffix \<in> set (default_domain_suffix config)"
    and later: "\<forall>(slug', backend') \<in> set post. \<forall>suffix' \<in> set (default_domain_suffix config).
        slug' @ ''.'' @ suffix' \<noteq> slug @ ''.'' @ suffix"
  shows "map_of (docker_desired config dockerRoutes) (slug @ ''.'' @ suffix) = Some backend"
proof -
  let ?A = "docker_sets config pre"
  let ?E = "docker_sets config [(slug, backend)]"
  let ?B = "docker_sets config post"
  let ?n = "slug @ ''.'' @ suffix"
  have notB: "?n \<notin> fst ` set ?B"
  proof
    assume "?n \<in> fst ` set ?B"
    then obtain b where "(?n, b) \<in> set ?B" by force
    from in_docker_sets [OF this] later show False by fastforce
  qed
  have inE: "?n \<in> fst ` set ?E"
    using suffix by (simp add: keys_docker_sets_one)
  have "docker_sets config dockerRoutes = ?A @ ?E @ ?B"
    unfolding split docker_sets_append docker_sets_Cons [of config "(slug, backend)" post] ..
  then have eq: "docker_desired config dockerRoutes = set_all ?B (set_all ?E (set_all ?A []))"
    by (simp add: docker_desired_sets set_all_append)
  have "map_of (docker_desired config dockerRoutes) ?n = map_of (set_all ?E (set_all ?A [])) ?n"
    unfolding eq by (rule set_all_lookup_old [OF notB])
  also have "\<dots> = Some backend"
    using inE by (rule set_all_lookup_new) (auto simp: docker_sets_def)
  finally show ?thesis .
qed

subsection \<open>The Docker map\<close>

lemma scan_container_view:
  "scan_container ip c routes =
     (case container_backend ip c of
        None \<Rightarrow> routes
      | Some backend \<Rightarrow> fold (\<lambda>slug. map_set slug backend) (container_slugs c) routes)"
  by (simp add: scan_container_def container_backend_def container_slugs_def trim_def Let_def
      split: option.split list.split)

lemma map_of_scan_container:
  "map_of (scan_container ip c routes) slug =
     (if carries ip slug c then container_backend ip c else map_of routes slug)"
proof (cases "container_backend ip c")
  case None
  then show ?thesis by (simp add: scan_container_view carries_def)
next
  case (Some backend)
  have scan: "scan_container ip c routes =
      set_all (map (\<lambda>slug. (slug, backend)) (container_slugs c)) routes"
    by (simp add: scan_container_view Some set_all_map)
  show ?thesis
  proof (cases "slug \<in> set (container_slugs c)")
    case True
    then have "slug \<in> fst ` set (map (\<lambda>slug. (slug, backend)) (container_slugs c))"
      by (simp add: image_image)
    then have "map_of (scan_container ip c routes) slug = Some backend"
      unfolding scan by (rule set_all_lookup_new) auto
    with True Some show ?thesis by (simp add: carries_def)
  next
    case False
    then have "slug \<notin> fst ` set (map (\<lambda>slug. (slug, backend)) (container_slugs c))"
      by (simp add: image_image)
    then have "map_of (scan_container ip c routes) slug = map_of routes slug"
      unfolding scan by (rule set_all_lookup_old)
    with False show ?thesis by (simp add: carries_def)
  qed
qed

lemma getDockerRoutes_snoc:
  "getDockerRoutes ip (Inr (cs @ [c])) = scan_container ip c (getDockerRoutes ip (Inr cs))"
  by (simp add: getDockerRoutes_def)

lemma slug_backend_is_last:
  "map_of (getDockerRoutes ip (Inr containers)) slug =
     (if filter (carries ip slug) containers = [] then None
      else container_backend ip (last (filter (carries ip slug) containers)))"
proof (induction containers rule: rev_induct)
  case Nil
  then show ?case by (simp add: getDockerRoutes_def)
next
  case (snoc c containers)
  show ?case
    by (simp add: getDockerRoutes_snoc map_of_scan_container snoc.IH)
qed

subsection \<open>The calls of a cycle\<close>

lemma fold_add_or_update_step:
  "fold (add_or_update_step cur) D (cs, ch) = (cs @ adds_of D cur, ch \<or> adds_of D cur \<noteq> [])"
  by (induction D arbitrary: cs ch) (auto simp: add_or_update_step_def adds_of_def map_get_def)

lemma fold_delete_step:
  "fold (delete_step D) cur (cs, ch) = (cs @ deletes_of D cur, ch \<or> deletes_of D cur \<noteq> [])"
  by (induction cur arbitrary: cs ch) (auto simp: delete_step_def deletes_of_def map_has_def)

lemma apply_changes_eq:
  "apply_changes D cur = (adds_of D cur @ deletes_of D cur, adds_of D cur @ deletes_of D cur \<noteq> [])"
  by (simp add: apply_changes_def fold_add_or_update_step fold_delete_step)

lemma sync_calls_eq: "sync_calls D cur = adds_of D cur @ deletes_of D cur"
  by (simp add: sync_calls_def apply_changes_eq)

lemma count_adds_of_delete: "count_list (adds_of D cur) (DeleteRoute a) = 0"
  by (auto simp: adds_of_def count_list_0_iff)

lemma count_deletes_of_add: "count_list (deletes_of D cur) (AddOrUpdateRoute a b) = 0"
  by (auto simp: deletes_of_def count_list_0_iff)

lemma count_adds_of:
  "distinct (map fst D) \<Longrightarrow>
   count_list (adds_of D cur) (AddOrUpdateRoute a b) =
     (if map_of D a = Some b \<and> map_of cur a \<noteq> Some b then 1 else 0)"
proof (induction D)
  case Nil
  then show ?case by (simp add: adds_of_def)
next
  case (Cons p D)
  obtain a' b' where p: "p = (a', b')" by (cases p)
  from Cons.prems have notin: "a' \<notin> fst ` set D" and dist: "distinct (map fst D)"
    by (auto simp: p)
  from notin have none: "map_of D a' = None"
    by (simp add: map_of_eq_None_iff)
  have step: "adds_of ((a', b') # D) cur =
      (if map_of cur a' \<noteq> Some b' then [AddOrUpdateRoute a' b'] else []) @ adds_of D cur"
    by (simp add: adds_of_def)
  show ?case
    using Cons.IH [OF dist] none by (auto simp: step p)
qed

lemma count_deletes_of:
  "distinct (map fst cur) \<Longrightarrow>
   count_list (deletes_of D cur) (DeleteRoute a) =
     (if map_of cur a \<noteq> None \<and> map_of D a = None then 1 else 0)"
proof (induction cur)
  case Nil
  then show ?case by (simp add: deletes_of_def)
next
  case (Cons p cur)
  obtain a' b' where p: "p = (a', b')" by (cases p)
  from Cons.prems have notin: "a' \<notin> fst ` set cur" and dist: "distinct (map fst cur)"
    by (auto simp: p)
  from notin have none: "map_of cur a' = None"
    by (simp add: map_of_eq_None_iff)
  have step: "deletes_of D ((a', b') # cur) =
      (if map_of D a' = None then [DeleteRoute a'] else []) @ deletes_of D cur"
    by (simp add: deletes_of_def)
  show ?case
    using Cons.IH [OF dist] none by (auto simp: step p)
qed

lemma adds_of_same: "map_of D = map_of cur \<Longrightarrow> distinct (map fst D) \<Longrightarrow> adds_of D cur = []"
  by (auto simp: adds_of_def filter_empty_conv dest: map_of_is_SomeI)

lemma deletes_of_same: "map_of D = map_of cur \<Longrightarrow> deletes_of D cur = []"
  by (auto simp: deletes_of_def filter_empty_conv map_of_eq_None_iff intro: rev_image_eqI)

lemma adds_of_are_adds: "c \<in> set (adds_of D cur) \<Longrightarrow> \<exists>a b. c = AddOrUpdateRoute a b"
  by (auto simp: adds_of_def)

lemma deletes_of_are_deletes: "c \<in> set (deletes_of D cur) \<Longrightarrow> \<exists>a. c = DeleteRoute a"
  by (auto simp: deletes_of_def)

lemma sync_calls_order:
  assumes "i < j" and "j < length (sync_calls D cur)" and "sync_calls D cur ! i = DeleteRoute a"
  shows "sync_calls D cur ! j \<noteq> AddOrUpdateRoute a' b'"
proof -
  let ?as = "adds_of D cur" and ?ds = "deletes_of D cur"
  have i_ge: "length ?as \<le> i"
  proof (rule ccontr)
    assume "\<not> length ?as \<le> i"
    then have "i < length ?as" by simp
    then have "sync_calls D cur ! i \<in> set ?as"
      by (simp add: sync_calls_eq nth_append)
    with assms(3) show False by (auto dest: adds_of_are_adds)
  qed
  with assms(1) have "length ?as \<le> j" by simp
  with assms(2) have "sync_calls D cur ! j \<in> set ?ds"
    by (simp add: sync_calls_eq nth_append)
  then show ?thesis by (auto dest: deletes_of_are_deletes)
qed

lemma adds_of_names: "AddOrUpdateRoute a b \<in> set (adds_of D cur) \<Longrightarrow> map_of D a \<noteq> None"
  by (auto simp: adds_of_def map_of_eq_None_iff intro: rev_image_eqI)

lemma deletes_of_names: "DeleteRoute a \<in> set (deletes_of D cur) \<Longrightarrow> map_of D a = None"
  by (auto simp: deletes_of_def)

lemma sync_calls_names:
  "AddOrUpdateRoute a b \<in> set (sync_calls D cur) \<Longrightarrow> map_of D a \<noteq> None"
  "DeleteRoute a \<in> set (sync_calls D cur) \<Longrightarrow> map_of D a = None"
  by (auto simp: sync_calls_eq dest: adds_of_names deletes_of_names adds_of_are_adds deletes_of_are_deletes)

lemma adds_of_Cons:
  "adds_of ((a, b) # D) cur =
     (if map_of cur a \<noteq> Some b then [AddOrUpdateRoute a b] else []) @ adds_of D cur"
  by (simp add: adds_of_def)

lemma deletes_of_Cons:
  "deletes_of D ((a, b) # cur) =
     (if map_of D a = None then [DeleteRoute a] else []) @ deletes_of D cur"
  by (simp add: deletes_of_def)

lemma router_after_adds:
  "distinct (map fst D) \<Longrightarrow>
   fold router_apply (adds_of D cur) table x =
     (case map_of D x of
        Some b \<Rightarrow> if map_of cur x \<noteq> Some b then Some b else table x
      | None \<Rightarrow> table x)"
proof (induction D arbitrary: table)
  case Nil
  then show ?case by (simp add: adds_of_def)
next
  case (Cons p D)
  obtain a' b' where p: "p = (a', b')" by (cases p)
  from Cons.prems have none: "map_of D a' = None" and dist: "distinct (map fst D)"
    by (auto simp: p map_of_eq_None_iff)
  show ?case
    using none by (auto simp: p adds_of_Cons Cons.IH [OF dist] split: option.split)
qed

lemma router_after_deletes:
  "fold router_apply (deletes_of D cur) table x =
     (if map_of cur x \<noteq> None \<and> map_of D x = None then None else table x)"
proof (induction cur arbitrary: table)
  case Nil
  then show ?case by (simp add: deletes_of_def)
next
  case (Cons p cur)
  obtain a' b' where p: "p = (a', b')" by (cases p)
  show ?case
    by (auto simp: p deletes_of_Cons Cons.IH)
qed

lemma router_after_sync:
  assumes "distinct (map fst D)"
  shows "fold router_apply (sync_calls D cur) (map_of cur) = map_of D"
proof
  fix x
  show "fold router_apply (sync_calls D cur) (map_of cur) x = map_of D x"
    by (auto simp: sync_calls_eq router_after_deletes router_after_adds [OF assms]
        split: option.split)
qed

lemma syncRoutes_fetched:
  "syncRoutes ip (Some config) listed (Some cur) =
     (let calls = sync_calls (build_desired config (getDockerRoutes ip listed)) (new_Map cur)
      in (if calls = [] then No_changes else Changes_applied, calls))"
  by (simp add: syncRoutes_def Let_def sync_calls_eq apply_changes_eq)

subsection \<open>Evaluating a cycle\<close>

lemmas cycle_defs =
  syncRoutes_def getDockerRoutes_def scan_container_def trim_def is_space_def
  num_to_string_def nat_to_string.simps build_desired_def docker_desired_def
  docker_entry_routes_def manual_entry_routes_def suffixes_of_def fullAddress_def
  manual_backend_def new_Map_def apply_changes_def sync_calls_def add_or_update_step_def
  delete_step_def map_get_def map_has_def

lemmas example_defs = example_config_def example_containers_def example_routes_def

lemmas container_defs = carries_def container_slugs_def container_backend_def

lemma example_cycle:
  "syncRoutes ''192.168.1.10'' (Some example_config) (Inr example_containers) (Some example_routes)
   = (Changes_applied,
      [AddOrUpdateRoute ''a.mc.test'' ''192.168.1.10:25565'',
       AddOrUpdateRoute ''b.mc.test'' ''192.168.1.10:25565'',
       AddOrUpdateRoute ''foo'' ''10.0.0.5:9000'',
       DeleteRoute ''old.example.com'', DeleteRoute ''older.example.com''])"
  by (simp add: cycle_defs example_defs)

section \<open>Properties\<close>

subsection \<open>The calls of the comparison\<close>

text \<open>
  C1. For a desired map \<open>D\<close> and an observed map \<open>cur\<close> (two JavaScript maps, so
  no key occurs twice), the comparison issues exactly one add/update call for every
  name of \<open>D\<close> whose backend is not the one \<open>cur\<close> has for that name (a name that
  \<open>cur\<close> lacks included), with the backend of \<open>D\<close>; exactly one delete call for
  every name of \<open>cur\<close> that \<open>D\<close> lacks; and no other call. When the two maps hold
  the same routes, no call is issued at all.
\<close>

theorem diff_calls_exact:
  assumes "distinct (map fst D)" and "distinct (map fst cur)"
  shows "(\<forall>a b. count_list (sync_calls D cur) (AddOrUpdateRoute a b) =
            (if map_of D a = Some b \<and> map_of cur a \<noteq> Some b then 1 else 0))
       \<and> (\<forall>a. count_list (sync_calls D cur) (DeleteRoute a) =
            (if map_of cur a \<noteq> None \<and> map_of D a = None then 1 else 0))
       \<and> (map_of D = map_of cur \<longrightarrow> sync_calls D cur = [])"
  using assms
  by (simp add: sync_calls_eq count_adds_of count_deletes_of count_adds_of_delete
      count_deletes_of_add adds_of_same deletes_of_same)

theorem diff_calls_exact_witness:
  "distinct (map fst [(''a.x'', ''h:1''), (''b.x'', ''h:2''), (''c.x'', ''h:3'')])
   \<and> distinct (map fst [(''a.x'', ''h:1''), (''b.x'', ''h:9''), (''old.x'', ''h:4'')])
   \<and> count_list (sync_calls [(''a.x'', ''h:1''), (''b.x'', ''h:2''), (''c.x'', ''h:3'')]
         [(''a.x'', ''h:1''), (''b.x'', ''h:9''), (''old.x'', ''h:4'')])
         (AddOrUpdateRoute ''b.x'' ''h:2'') = 1
   \<and> count_list (sync_calls [(''a.x'', ''h:1''), (''b.x'', ''h:2''), (''c.x'', ''h:3'')]
         [(''a.x'', ''h:1''), (''b.x'', ''h:9''), (''old.x'', ''h:4'')])
         (AddOrUpdateRoute ''c.x'' ''h:3'') = 1
   \<and> count_list (sync_calls [(''a.x'', ''h:1''), (''b.x'', ''h:2''), (''c.x'', ''h:3'')]
         [(''a.x'', ''h:1''), (''b.x'', ''h:9''), (''old.x'', ''h:4'')])
         (AddOrUpdateRoute ''a.x'' ''h:1'') = 0
   \<and> count_list (sync_calls [(''a.x'', ''h:1''), (''b.x'', ''h:2''), (''c.x'', ''h:3'')]
         [(''a.x'', ''h:1''), (''b.x'', ''h:9''), (''old.x'', ''h:4'')])
         (DeleteRoute ''old.x'') = 1
   \<and> count_list (sync_calls [(''a.x'', ''h:1''), (''b.x'', ''h:2''), (''c.x'', ''h:3'')]
         [(''a.x'', ''h:1''), (''b.x'', ''h:9''), (''old.x'', ''h:4'')])
         (DeleteRoute ''b.x'') = 0
   \<and> sync_calls [(''a.x'', ''h:1''), (''b.x'', ''h:2''), (''c.x'', ''h:3'')]
         [(''c.x'', ''h:3''), (''a.x'', ''h:1''), (''b.x'', ''h:2'')] = []"
proof -
  have d: "distinct (map fst [(''a.x'', ''h:1''), (''b.x'', ''h:2''), (''c.x'', ''h:3'')])"
    by simp
  have c: "distinct (map fst [(''a.x'', ''h:1''), (''b.x'', ''h:9''), (''old.x'', ''h:4'')])"
    by simp
  have c': "distinct (map fst [(''c.x'', ''h:3''), (''a.x'', ''h:1''), (''b.x'', ''h:2'')])"
    by simp
  have same: "map_of [(''a.x'', ''h:1''), (''b.x'', ''h:2''), (''c.x'', ''h:3'')] =
      map_of [(''c.x'', ''h:3''), (''a.x'', ''h:1''), (''b.x'', ''h:2'')]"
    by (auto simp: fun_eq_iff)
  show ?thesis
    using d c diff_calls_exact [OF d c] diff_calls_exact [OF d c'] same by simp
qed

text \<open>
  C6. In the calls of one cycle, no delete call comes before an add/update call: every
  add/update call is issued before any delete call.
\<close>

theorem adds_before_deletes:
  "i < j \<Longrightarrow> j < length (snd (syncRoutes ip loaded listed fetched)) \<Longrightarrow>
   snd (syncRoutes ip loaded listed fetched) ! i = DeleteRoute a \<Longrightarrow>
   snd (syncRoutes ip loaded listed fetched) ! j \<noteq> AddOrUpdateRoute a' b'"
  by (cases loaded; cases fetched) (auto simp: syncRoutes_calls dest: sync_calls_order)

theorem adds_before_deletes_witness:
  "(3::nat) < 4
   \<and> 4 < length (snd (syncRoutes ''192.168.1.10'' (Some example_config)
            (Inr example_containers) (Some example_routes)))
   \<and> snd (syncRoutes ''192.168.1.10'' (Some example_config)
            (Inr example_containers) (Some example_routes)) ! 3 = DeleteRoute ''old.example.com''
   \<and> snd (syncRoutes ''192.168.1.10'' (Some example_config)
            (Inr example_containers) (Some example_routes)) ! 4
        \<noteq> AddOrUpdateRoute ''foo'' ''10.0.0.5:9000''"
proof -
  have lt: "(3::nat) < 4" by simp
  have len: "4 < length (snd (syncRoutes ''192.168.1.10'' (Some example_config)
            (Inr example_containers) (Some example_routes)))"
    by (simp add: example_cycle)
  have del: "snd (syncRoutes ''192.168.1.10'' (Some example_config)
            (Inr example_containers) (Some example_routes)) ! 3 = DeleteRoute ''old.example.com''"
    by (simp add: example_cycle)
  from adds_before_deletes [OF lt len del] lt len del show ?thesis by blast
qed

text \<open>
  C10. In one cycle, no name receives both an add/update call and a delete call; and a
  name that is in the desired map is never deleted, whatever the router holds for it.
\<close>

theorem adds_and_deletes_disjoint:
  "{a. \<exists>b. AddOrUpdateRoute a b \<in> set (snd (syncRoutes ip loaded listed fetched))}
     \<inter> {a. DeleteRoute a \<in> set (snd (syncRoutes ip loaded listed fetched))} = {}
   \<and> (\<forall>a. map_has a (build_desired config (getDockerRoutes ip listed)) \<longrightarrow>
          DeleteRoute a \<notin> set (snd (syncRoutes ip (Some config) listed fetched)))"
proof (intro conjI allI impI)
  show "{a. \<exists>b. AddOrUpdateRoute a b \<in> set (snd (syncRoutes ip loaded listed fetched))}
     \<inter> {a. DeleteRoute a \<in> set (snd (syncRoutes ip loaded listed fetched))} = {}"
    by (cases loaded; cases fetched) (auto simp: syncRoutes_calls dest: sync_calls_names)
next
  fix a
  assume "map_has a (build_desired config (getDockerRoutes ip listed))"
  then show "DeleteRoute a \<notin> set (snd (syncRoutes ip (Some config) listed fetched))"
    by (cases fetched) (auto simp: syncRoutes_calls map_has_def dest: sync_calls_names)
qed

theorem adds_and_deletes_disjoint_witness:
  "map_has ''a.mc.test'' (build_desired example_config (getDockerRoutes ''192.168.1.10'' (Inr example_containers)))
   \<and> map_get ''a.mc.test'' (build_desired example_config (getDockerRoutes ''192.168.1.10'' (Inr example_containers)))
       \<noteq> map_get ''a.mc.test'' (new_Map example_routes)
   \<and> DeleteRoute ''a.mc.test'' \<notin> set (snd (syncRoutes ''192.168.1.10'' (Some example_config)
         (Inr example_containers) (Some example_routes)))"
proof -
  have has: "map_has ''a.mc.test''
      (build_desired example_config (getDockerRoutes ''192.168.1.10'' (Inr example_containers)))"
    by (simp add: cycle_defs example_defs)
  have differs: "map_get ''a.mc.test'' (build_desired example_config (getDockerRoutes ''192.168.1.10'' (Inr example_containers)))
       \<noteq> map_get ''a.mc.test'' (new_Map example_routes)"
    by (simp add: cycle_defs example_defs)
  from adds_and_deletes_disjoint [of "''192.168.1.10''" "Some example_config" "Inr example_containers"
      "Some example_routes" example_config] has differs
  show ?thesis by blast
qed

text \<open>
  C7. The desired map \<open>D\<close> is applied against the observed map \<open>cur\<close>, and every
  call succeeds. Whatever map \<open>cur'\<close> the router then reports for the table that
  results, applying \<open>D\<close> against \<open>cur'\<close> issues no call.
\<close>

theorem second_application_is_silent:
  assumes "distinct (map fst D)"
    and "map_of cur' = fold router_apply (sync_calls D cur) (map_of cur)"
  shows "sync_calls D cur' = [] \<and> apply_changes D cur' = ([], False)"
proof -
  from assms have same: "map_of D = map_of cur'"
    by (simp add: router_after_sync)
  then show ?thesis
    using assms(1) by (simp add: sync_calls_eq apply_changes_eq adds_of_same deletes_of_same)
qed

theorem second_application_is_silent_witness:
  "distinct (map fst [(''a.x'', ''h:1''), (''b.x'', ''h:2'')])
   \<and> sync_calls [(''a.x'', ''h:1''), (''b.x'', ''h:2'')]
        [(''a.x'', ''h:1''), (''b.x'', ''h:9''), (''old.x'', ''h:4'')]
      = [AddOrUpdateRoute ''b.x'' ''h:2'', DeleteRoute ''old.x'']
   \<and> map_of [(''b.x'', ''h:2''), (''a.x'', ''h:1'')] =
       fold router_apply
         (sync_calls [(''a.x'', ''h:1''), (''b.x'', ''h:2'')]
            [(''a.x'', ''h:1''), (''b.x'', ''h:9''), (''old.x'', ''h:4'')])
         (map_of [(''a.x'', ''h:1''), (''b.x'', ''h:9''), (''old.x'', ''h:4'')])
   \<and> sync_calls [(''a.x'', ''h:1''), (''b.x'', ''h:2'')] [(''b.x'', ''h:2''), (''a.x'', ''h:1'')] = []"
proof -
  have d: "distinct (map fst [(''a.x'', ''h:1''), (''b.x'', ''h:2'')])"
    by simp
  have first: "sync_calls [(''a.x'', ''h:1''), (''b.x'', ''h:2'')]
        [(''a.x'', ''h:1''), (''b.x'', ''h:9''), (''old.x'', ''h:4'')]
      = [AddOrUpdateRoute ''b.x'' ''h:2'', DeleteRoute ''old.x'']"
    by (simp add: cycle_defs)
  have after: "map_of [(''b.x'', ''h:2''), (''a.x'', ''h:1'')] =
       fold router_apply
         (sync_calls [(''a.x'', ''h:1''), (''b.x'', ''h:2'')]
            [(''a.x'', ''h:1''), (''b.x'', ''h:9''), (''old.x'', ''h:4'')])
         (map_of [(''a.x'', ''h:1''), (''b.x'', ''h:9''), (''old.x'', ''h:4'')])"
    unfolding first by (auto simp: fun_eq_iff)
  from second_application_is_silent [OF d after] d first after
  show ?thesis by blast
qed


subsection \<open>The route names of a manual entry\<close>

text \<open>
  C2. A manual entry adds to the map one name for each suffix of its suffix list, and
  nothing else: the bare slug for a suffix that contains a dot, the slug, a dot and the
  suffix otherwise. The test is made for each suffix, and each of these names then maps
  to the backend of the entry.
\<close>

theorem manual_route_names:
  "fst ` set (manual_entry_routes config (slug, mc) d) =
     fst ` set d \<union>
     (\<lambda>suffix. if CHR ''.'' \<in> set suffix then slug else slug @ ''.'' @ suffix)
       ` set (suffixes_of config mc)
   \<and> (\<forall>suffix \<in> set (suffixes_of config mc).
        map_of (manual_entry_routes config (slug, mc) d)
          (if CHR ''.'' \<in> set suffix then slug else slug @ ''.'' @ suffix)
        = Some (manual_backend mc))"
proof (intro conjI ballI)
  have "fullAddress slug = (\<lambda>suffix. if CHR ''.'' \<in> set suffix then slug else slug @ ''.'' @ suffix)"
    by (simp add: fun_eq_iff fullAddress_def)
  then show "fst ` set (manual_entry_routes config (slug, mc) d) =
     fst ` set d \<union>
     (\<lambda>suffix. if CHR ''.'' \<in> set suffix then slug else slug @ ''.'' @ suffix)
       ` set (suffixes_of config mc)"
    by (simp add: manual_entry_routes_sets keys_set_all keys_entry_sets)
next
  fix suffix
  assume "suffix \<in> set (suffixes_of config mc)"
  then have "fullAddress slug suffix \<in> fst ` set (entry_sets config (slug, mc))"
    by (simp add: keys_entry_sets)
  then have "map_of (set_all (entry_sets config (slug, mc)) d) (fullAddress slug suffix)
      = Some (manual_backend mc)"
    by (rule set_all_lookup_new) (auto dest: values_entry_sets)
  then show "map_of (manual_entry_routes config (slug, mc) d)
          (if CHR ''.'' \<in> set suffix then slug else slug @ ''.'' @ suffix)
        = Some (manual_backend mc)"
    by (simp add: manual_entry_routes_sets fullAddress_def)
qed

theorem manual_route_names_witness:
  "suffixes_of example_config
      \<lparr>host = ''10.0.0.5'', port = 9000, override_suffix = Some [''lan'', ''example.com'']\<rparr>
     = [''lan'', ''example.com'']
   \<and> map_of (manual_entry_routes example_config
        (''foo'', \<lparr>host = ''10.0.0.5'', port = 9000, override_suffix = Some [''lan'', ''example.com'']\<rparr>) [])
        ''foo.lan'' = Some ''10.0.0.5:9000''
   \<and> map_of (manual_entry_routes example_config
        (''foo'', \<lparr>host = ''10.0.0.5'', port = 9000, override_suffix = Some [''lan'', ''example.com'']\<rparr>) [])
        ''foo'' = Some ''10.0.0.5:9000''
   \<and> fst ` set (manual_entry_routes example_config
        (''foo'', \<lparr>host = ''10.0.0.5'', port = 9000, override_suffix = Some [''lan'', ''example.com'']\<rparr>) [])
      = {''foo.lan'', ''foo''}"
proof -
  let ?e = "\<lparr>host = ''10.0.0.5'', port = 9000, override_suffix = Some [''lan'', ''example.com'']\<rparr>"
  have sfx: "suffixes_of example_config ?e = [''lan'', ''example.com'']"
    by (simp add: suffixes_of_def)
  have b: "manual_backend ?e = ''10.0.0.5:9000''"
    by (simp add: manual_backend_def num_to_string_def nat_to_string.simps)
  from manual_route_names [of example_config "''foo''" ?e "[]"]
  show ?thesis
    unfolding sfx b by simp
qed

text \<open>
  C3 as the specification states it fails on an entry whose \<^verbatim>\<open>override_suffix\<close> is
  the empty list: its suffix list is that empty list, not the default. The entry yields
  no route, where the same entry without the field yields one.
\<close>

theorem empty_override_counterexample:
  "override_suffix \<lparr>host = ''10.0.0.5'', port = 9000, override_suffix = Some []\<rparr> = Some []
   \<and> suffixes_of
        \<lparr>default_domain_suffix = [''lan''],
         manual = [(''foo'', \<lparr>host = ''10.0.0.5'', port = 9000, override_suffix = Some []\<rparr>)]\<rparr>
        \<lparr>host = ''10.0.0.5'', port = 9000, override_suffix = Some []\<rparr>
      \<noteq> default_domain_suffix
        \<lparr>default_domain_suffix = [''lan''],
         manual = [(''foo'', \<lparr>host = ''10.0.0.5'', port = 9000, override_suffix = Some []\<rparr>)]\<rparr>
   \<and> build_desired
        \<lparr>default_domain_suffix = [''lan''],
         manual = [(''foo'', \<lparr>host = ''10.0.0.5'', port = 9000, override_suffix = Some []\<rparr>)]\<rparr> []
      = []
   \<and> build_desired
        \<lparr>default_domain_suffix = [''lan''],
         manual = [(''foo'', \<lparr>host = ''10.0.0.5'', port = 9000, override_suffix = None\<rparr>)]\<rparr> []
      = [(''foo.lan'', ''10.0.0.5:9000'')]"
  by (simp add: cycle_defs)

text \<open>
  C3, as the code has it. The suffix list of a manual entry is its
  \<^verbatim>\<open>override_suffix\<close> whenever the field is present, also when it is the empty list
  (the entry then changes nothing in the map), and the default list of the configuration
  when the field is absent.
\<close>

theorem suffix_list_choice:
  "(override_suffix mc = Some suffixes \<longrightarrow>
      suffixes_of config mc = suffixes
      \<and> manual_entry_routes config (slug, mc) d =
          fold (\<lambda>suffix. map_set (fullAddress slug suffix) (manual_backend mc)) suffixes d)
   \<and> (override_suffix mc = None \<longrightarrow>
      suffixes_of config mc = default_domain_suffix config
      \<and> manual_entry_routes config (slug, mc) d =
          fold (\<lambda>suffix. map_set (fullAddress slug suffix) (manual_backend mc))
            (default_domain_suffix config) d)
   \<and> (override_suffix mc = Some [] \<longrightarrow> manual_entry_routes config (slug, mc) d = d)"
  by (simp add: suffixes_of_def manual_entry_routes_def)

theorem suffix_list_choice_witness:
  "override_suffix \<lparr>host = ''10.0.0.5'', port = 9000, override_suffix = Some [''lan'']\<rparr> = Some [''lan'']
   \<and> suffixes_of example_config \<lparr>host = ''10.0.0.5'', port = 9000, override_suffix = Some [''lan'']\<rparr>
       = [''lan'']
   \<and> override_suffix \<lparr>host = ''10.0.0.5'', port = 9000, override_suffix = None\<rparr> = None
   \<and> suffixes_of example_config \<lparr>host = ''10.0.0.5'', port = 9000, override_suffix = None\<rparr>
       = [''mc.test'']
   \<and> override_suffix \<lparr>host = ''10.0.0.5'', port = 9000, override_suffix = Some []\<rparr> = Some []
   \<and> manual_entry_routes example_config
        (''foo'', \<lparr>host = ''10.0.0.5'', port = 9000, override_suffix = Some []\<rparr>)
        [(''a.mc.test'', ''192.168.1.10:25565'')]
       = [(''a.mc.test'', ''192.168.1.10:25565'')]"
  using
    suffix_list_choice [of "\<lparr>host = ''10.0.0.5'', port = 9000, override_suffix = Some [''lan'']\<rparr>"
      "[''lan'']" example_config "''foo''" "[]"]
    suffix_list_choice [of "\<lparr>host = ''10.0.0.5'', port = 9000, override_suffix = None\<rparr>"
      "[]" example_config "''foo''" "[]"]
    suffix_list_choice [of "\<lparr>host = ''10.0.0.5'', port = 9000, override_suffix = Some []\<rparr>"
      "[]" example_config "''foo''" "[(''a.mc.test'', ''192.168.1.10:25565'')]"]
  by (simp add: example_config_def)

subsection \<open>Manual entries and discovered routes\<close>

text \<open>
  C4 as the specification states it fails when two manual entries produce the same
  name. The entry \<^verbatim>\<open>foo.lan\<close> (backend \<^verbatim>\<open>m:10\<close>, a full-domain override) and the
  container's slug \<^verbatim>\<open>foo\<close> both produce \<^verbatim>\<open>foo.lan\<close>, and so does the later
  entry \<^verbatim>\<open>foo\<close> (backend \<^verbatim>\<open>m:11\<close>): the final map holds \<^verbatim>\<open>m:11\<close>, which is not the
  backend of the first entry.
\<close>

theorem earlier_manual_entry_counterexample:
  "manual shadow_config
     = [(''foo.lan'', \<lparr>host = ''m'', port = 10, override_suffix = Some [''x.y'']\<rparr>),
        (''foo'', \<lparr>host = ''m'', port = 11, override_suffix = None\<rparr>)]
   \<and> suffixes_of shadow_config \<lparr>host = ''m'', port = 10, override_suffix = Some [''x.y'']\<rparr>
       = [''x.y'']
   \<and> fullAddress ''foo.lan'' ''x.y'' = ''foo.lan''
   \<and> manual_backend \<lparr>host = ''m'', port = 10, override_suffix = Some [''x.y'']\<rparr> = ''m:10''
   \<and> getDockerRoutes ''h'' (Inr shadow_containers) = [(''foo'', ''h:25565'')]
   \<and> docker_desired shadow_config (getDockerRoutes ''h'' (Inr shadow_containers))
       = [(''foo.lan'', ''h:25565'')]
   \<and> build_desired shadow_config (getDockerRoutes ''h'' (Inr shadow_containers))
       = [(''foo.lan'', ''m:11'')]"
  by (simp add: cycle_defs shadow_config_def shadow_containers_def)

text \<open>
  C4, as the code has it. In the desired map no name occurs twice, so every name has
  exactly one backend. A name that a manual entry produces maps to the backend of a
  manual entry that produces it, whatever the Docker map holds for that name; and it
  maps to the backend of a given manual entry whenever no manual entry that comes later
  in the configuration produces the same name, that is, the last manual entry that
  produces a name decides its backend.
\<close>

theorem manual_entries_take_precedence:
  "distinct (map fst (build_desired config dockerRoutes))
   \<and> (\<forall>slug mc suffix.
        (slug, mc) \<in> set (manual config) \<and> suffix \<in> set (suffixes_of config mc) \<longrightarrow>
        (\<exists>slug' mc' suffix'. (slug', mc') \<in> set (manual config)
           \<and> suffix' \<in> set (suffixes_of config mc')
           \<and> fullAddress slug' suffix' = fullAddress slug suffix
           \<and> map_of (build_desired config dockerRoutes) (fullAddress slug suffix)
               = Some (manual_backend mc')))
   \<and> (\<forall>pre slug mc post suffix.
        manual config = pre @ (slug, mc) # post \<and> suffix \<in> set (suffixes_of config mc)
        \<and> (\<forall>(slug', mc') \<in> set post. \<forall>suffix' \<in> set (suffixes_of config mc').
              fullAddress slug' suffix' \<noteq> fullAddress slug suffix) \<longrightarrow>
        map_of (build_desired config dockerRoutes) (fullAddress slug suffix)
          = Some (manual_backend mc))"
proof (intro conjI allI impI)
  show "distinct (map fst (build_desired config dockerRoutes))"
    by (rule distinct_build_desired)
next
  fix slug mc suffix
  assume "(slug, mc) \<in> set (manual config) \<and> suffix \<in> set (suffixes_of config mc)"
  then show "\<exists>slug' mc' suffix'. (slug', mc') \<in> set (manual config)
           \<and> suffix' \<in> set (suffixes_of config mc')
           \<and> fullAddress slug' suffix' = fullAddress slug suffix
           \<and> map_of (build_desired config dockerRoutes) (fullAddress slug suffix)
               = Some (manual_backend mc')"
    using some_manual_entry_wins [of slug mc config suffix dockerRoutes] by blast
next
  fix pre slug mc post suffix
  assume "manual config = pre @ (slug, mc) # post \<and> suffix \<in> set (suffixes_of config mc)
        \<and> (\<forall>(slug', mc') \<in> set post. \<forall>suffix' \<in> set (suffixes_of config mc').
              fullAddress slug' suffix' \<noteq> fullAddress slug suffix)"
  then show "map_of (build_desired config dockerRoutes) (fullAddress slug suffix)
          = Some (manual_backend mc)"
    using last_manual_entry_wins [of config pre slug mc post suffix dockerRoutes] by blast
qed


theorem manual_entries_take_precedence_witness:
  "manual \<lparr>default_domain_suffix = [''lan''],
            manual = [(''foo'', \<lparr>host = ''10.0.0.5'', port = 9000, override_suffix = None\<rparr>)]\<rparr>
     = [] @ (''foo'', \<lparr>host = ''10.0.0.5'', port = 9000, override_suffix = None\<rparr>) # []
   \<and> ''lan'' \<in> set (suffixes_of
         \<lparr>default_domain_suffix = [''lan''],
            manual = [(''foo'', \<lparr>host = ''10.0.0.5'', port = 9000, override_suffix = None\<rparr>)]\<rparr>
         \<lparr>host = ''10.0.0.5'', port = 9000, override_suffix = None\<rparr>)
   \<and> map_of (docker_desired
         \<lparr>default_domain_suffix = [''lan''],
            manual = [(''foo'', \<lparr>host = ''10.0.0.5'', port = 9000, override_suffix = None\<rparr>)]\<rparr>
         [(''foo'', ''192.168.1.10:25565'')]) ''foo.lan'' = Some ''192.168.1.10:25565''
   \<and> map_of (build_desired
         \<lparr>default_domain_suffix = [''lan''],
            manual = [(''foo'', \<lparr>host = ''10.0.0.5'', port = 9000, override_suffix = None\<rparr>)]\<rparr>
         [(''foo'', ''192.168.1.10:25565'')]) ''foo.lan'' = Some ''10.0.0.5:9000''"
proof -
  let ?mc = "\<lparr>host = ''10.0.0.5'', port = 9000, override_suffix = None\<rparr>"
  let ?cfg = "\<lparr>default_domain_suffix = [''lan''], manual = [(''foo'', ?mc)]\<rparr>"
  let ?dr = "[(''foo'', ''192.168.1.10:25565'')]"
  have split: "manual ?cfg = [] @ (''foo'', ?mc) # []" by simp
  have suffix: "''lan'' \<in> set (suffixes_of ?cfg ?mc)" by (simp add: suffixes_of_def)
  have docker: "map_of (docker_desired ?cfg ?dr) ''foo.lan'' = Some ''192.168.1.10:25565''"
    by (simp add: cycle_defs)
  have name: "fullAddress ''foo'' ''lan'' = ''foo.lan''"
    by (simp add: fullAddress_def)
  have backend: "manual_backend ?mc = ''10.0.0.5:9000''"
    by (simp add: manual_backend_def num_to_string_def nat_to_string.simps)
  have "map_of (build_desired ?cfg ?dr) (fullAddress ''foo'' ''lan'') = Some (manual_backend ?mc)"
    using manual_entries_take_precedence [of ?cfg ?dr] split suffix by fastforce
  with split suffix docker show ?thesis
    by (simp only: name backend) 
qed

subsection \<open>A failed discovery\<close>

text \<open>
  C8. When listing the containers fails, the Docker map is empty, the desired map is
  what the manual entries alone produce (its names are exactly the names of the manual
  entries), and the comparison with the router's routes runs on that map.
\<close>

theorem discovery_failure_keeps_manual_routes:
  "getDockerRoutes ip (Inl failure) = []
   \<and> build_desired config (getDockerRoutes ip (Inl failure))
       = fold (manual_entry_routes config) (manual config) []
   \<and> fst ` set (build_desired config (getDockerRoutes ip (Inl failure)))
       = {fullAddress slug suffix | slug mc suffix.
            (slug, mc) \<in> set (manual config) \<and> suffix \<in> set (suffixes_of config mc)}
   \<and> syncRoutes ip (Some config) (Inl failure) (Some currentRoutes)
       = (let calls = sync_calls (fold (manual_entry_routes config) (manual config) [])
                        (new_Map currentRoutes)
          in (if calls = [] then No_changes else Changes_applied, calls))"
proof -
  have empty: "getDockerRoutes ip (Inl failure) = []"
    by (simp add: getDockerRoutes_def)
  have desired: "build_desired config [] = fold (manual_entry_routes config) (manual config) []"
    by (simp add: build_desired_def docker_desired_def)
  have keys: "fst ` set (build_desired config []) =
      {fullAddress slug suffix | slug mc suffix.
            (slug, mc) \<in> set (manual config) \<and> suffix \<in> set (suffixes_of config mc)}"
    by (simp add: build_desired_sets keys_set_all docker_desired_def keys_manual_sets)
  show ?thesis
    unfolding syncRoutes_fetched empty desired [symmetric] using keys by simp
qed


subsection \<open>A failed fetch of the observed state\<close>

text \<open>
  C5. When the fetch of the router's routes fails, the cycle issues no add/update and no
  delete call and ends as skipped, whatever the configuration and the containers are;
  the router's table, to which no call is applied, stays as it was.
\<close>

theorem fetch_failure_skips_cycle:
  "syncRoutes docker_host_ip (Some config) listed None = (Skipped_fetch, [])
   \<and> fold router_apply (snd (syncRoutes docker_host_ip loaded listed None)) table = table"
  by (simp add: syncRoutes_def Let_def split: option.split)

subsection \<open>Slugs carried by several containers\<close>

text \<open>
  C9 as the specification states it fails. Two containers carry the slug
  \<^verbatim>\<open>foo.mc\<close>, the second with port 25566, and a third one carries \<^verbatim>\<open>foo\<close>. With the
  suffixes \<^verbatim>\<open>example.com\<close> and \<^verbatim>\<open>mc.example.com\<close> the name
  \<^verbatim>\<open>foo.mc.example.com\<close> is generated for both slugs, and the later slug wins: the two
  names of \<^verbatim>\<open>foo.mc\<close> end with different backends. Besides, when the last container
  that carries a slug has no port entry, the slug keeps the backend of an earlier one.
\<close>

theorem slug_expansions_counterexample:
  "map_of (getDockerRoutes ''h'' (Inr ex_slug_containers)) ''foo.mc'' = Some ''h:25566''
   \<and> set (default_domain_suffix ex_slug_config) = {''example.com'', ''mc.example.com''}
   \<and> map_of (build_desired ex_slug_config (getDockerRoutes ''h'' (Inr ex_slug_containers)))
        (''foo.mc'' @ ''.'' @ ''example.com'') = Some ''h:25567''
   \<and> map_of (build_desired ex_slug_config (getDockerRoutes ''h'' (Inr ex_slug_containers)))
        (''foo.mc'' @ ''.'' @ ''mc.example.com'') = Some ''h:25566''
   \<and> map_of (getDockerRoutes ''h'' (Inr
        [\<lparr>Labels = [''router.slug'' \<mapsto> ''foo''], Ports = Some [\<lparr>PublicPort = Some 25565\<rparr>]\<rparr>,
         \<lparr>Labels = [''router.slug'' \<mapsto> ''foo''], Ports = Some []\<rparr>])) ''foo''
      = Some ''h:25565''"
  by (simp add: cycle_defs ex_slug_containers_def ex_slug_config_def)


text \<open>
  C9, as the code has it. In the Docker map a slug has the backend of the last
  container that carries it and whose first port entry has a public port other than
  zero (the other port entries of a container are never read). A name \<open>slug.suffix\<close>
  has that backend in the map of step 1 whenever no slug that comes later in the Docker
  map generates the same name.
\<close>

theorem slug_level_deduplication:
  "map_of (getDockerRoutes ip (Inr containers)) slug =
     (if filter (carries ip slug) containers = [] then None
      else container_backend ip (last (filter (carries ip slug) containers)))
   \<and> (\<forall>pre backend post suffix.
        getDockerRoutes ip listed = pre @ (slug, backend) # post
        \<and> suffix \<in> set (default_domain_suffix config)
        \<and> (\<forall>(slug', backend') \<in> set post. \<forall>suffix' \<in> set (default_domain_suffix config).
              slug' @ ''.'' @ suffix' \<noteq> slug @ ''.'' @ suffix) \<longrightarrow>
        map_of (docker_desired config (getDockerRoutes ip listed)) (slug @ ''.'' @ suffix)
          = Some backend)"
proof (intro conjI allI impI)
  show "map_of (getDockerRoutes ip (Inr containers)) slug =
     (if filter (carries ip slug) containers = [] then None
      else container_backend ip (last (filter (carries ip slug) containers)))"
    by (rule slug_backend_is_last)
next
  fix pre backend post suffix
  assume "getDockerRoutes ip listed = pre @ (slug, backend) # post
        \<and> suffix \<in> set (default_domain_suffix config)
        \<and> (\<forall>(slug', backend') \<in> set post. \<forall>suffix' \<in> set (default_domain_suffix config).
              slug' @ ''.'' @ suffix' \<noteq> slug @ ''.'' @ suffix)"
  then show "map_of (docker_desired config (getDockerRoutes ip listed)) (slug @ ''.'' @ suffix)
          = Some backend"
    using last_slug_wins [of "getDockerRoutes ip listed" pre slug backend post suffix config]
    by blast
qed

theorem slug_level_deduplication_witness:
  "filter (carries ''h'' ''foo.mc'') ex_slug_containers
     = [\<lparr>Labels = [''router.slug'' \<mapsto> ''foo.mc''], Ports = Some [\<lparr>PublicPort = Some 25565\<rparr>]\<rparr>,
        \<lparr>Labels = [''router.slug'' \<mapsto> ''foo.mc''], Ports = Some [\<lparr>PublicPort = Some 25566\<rparr>]\<rparr>]
   \<and> map_of (getDockerRoutes ''h'' (Inr ex_slug_containers)) ''foo.mc'' = Some ''h:25566''
   \<and> getDockerRoutes ''h'' (Inr ex_slug_containers)
       = [] @ (''foo.mc'', ''h:25566'') # [(''foo'', ''h:25567'')]
   \<and> ''mc.example.com'' \<in> set (default_domain_suffix ex_slug_config)
   \<and> default_domain_suffix ex_slug_config = [''example.com'', ''mc.example.com'']
   \<and> ''foo'' @ ''.'' @ ''example.com'' \<noteq> ''foo.mc'' @ ''.'' @ ''mc.example.com''
   \<and> ''foo'' @ ''.'' @ ''mc.example.com'' \<noteq> ''foo.mc'' @ ''.'' @ ''mc.example.com''
   \<and> map_of (docker_desired ex_slug_config (getDockerRoutes ''h'' (Inr ex_slug_containers)))
        (''foo.mc'' @ ''.'' @ ''mc.example.com'') = Some ''h:25566''"
proof -
  have carried: "filter (carries ''h'' ''foo.mc'') ex_slug_containers
     = [\<lparr>Labels = [''router.slug'' \<mapsto> ''foo.mc''], Ports = Some [\<lparr>PublicPort = Some 25565\<rparr>]\<rparr>,
        \<lparr>Labels = [''router.slug'' \<mapsto> ''foo.mc''], Ports = Some [\<lparr>PublicPort = Some 25566\<rparr>]\<rparr>]"
    by (simp add: ex_slug_containers_def container_defs trim_def is_space_def)
  have backend: "container_backend ''h''
      \<lparr>Labels = [''router.slug'' \<mapsto> ''foo.mc''], Ports = Some [\<lparr>PublicPort = Some 25566\<rparr>]\<rparr>
      = Some ''h:25566''"
    by (simp add: container_backend_def num_to_string_def nat_to_string.simps)
  have split: "getDockerRoutes ''h'' (Inr ex_slug_containers)
       = [] @ (''foo.mc'', ''h:25566'') # [(''foo'', ''h:25567'')]"
    by (simp add: cycle_defs ex_slug_containers_def)
  have suffix: "''mc.example.com'' \<in> set (default_domain_suffix ex_slug_config)"
    by (simp add: ex_slug_config_def)
  have later: "\<forall>(slug', backend') \<in> set [(''foo'', ''h:25567'')].
        \<forall>suffix' \<in> set (default_domain_suffix ex_slug_config).
          slug' @ ''.'' @ suffix' \<noteq> ''foo.mc'' @ ''.'' @ ''mc.example.com''"
    by (simp add: ex_slug_config_def)
  note dedup = slug_level_deduplication [of "''h''" ex_slug_containers "''foo.mc''"
      "Inr ex_slug_containers" ex_slug_config]
  from dedup have slug: "map_of (getDockerRoutes ''h'' (Inr ex_slug_containers)) ''foo.mc''
      = Some ''h:25566''"
    unfolding carried by (simp add: backend)
  from dedup split suffix later
  have name: "map_of (docker_desired ex_slug_config (getDockerRoutes ''h'' (Inr ex_slug_containers)))
        (''foo.mc'' @ ''.'' @ ''mc.example.com'') = Some ''h:25566''"
    by blast
  have suffixes: "default_domain_suffix ex_slug_config = [''example.com'', ''mc.example.com'']"
    by (simp add: ex_slug_config_def)
  have differ: "''foo'' @ ''.'' @ ''example.com'' \<noteq> ''foo.mc'' @ ''.'' @ ''mc.example.com''"
    "''foo'' @ ''.'' @ ''mc.example.com'' \<noteq> ''foo.mc'' @ ''.'' @ ''mc.example.com''"
    by simp_all
  from carried slug split suffix suffixes differ name show ?thesis by blast
qed


end
